theory Spec2Isabelle
  imports Main "HOL-Library.AList" "HOL-Library.Sublist"
begin

section \<open>The newsletter agent: a shallow embedding of \<open>main.py\<close>\<close>

text \<open>
  The repository's one source file, \<open>lambdas/newsletter-agent/src/main.py\<close>, holds a single
  function \<open>handler(event, context)\<close> with a nested helper \<open>truncate_text\<close>. The handler
  talks to five collaborators: the process table (DynamoDB), the news search (DDGS), the
  article extractor (Newspaper4k) and two language-model assistants (the article summarizer
  and the article writer). Their answers are parameters of the model (the record \<open>env\<close>);
  every call the handler makes and every write it gets applied is recorded as an \<open>event\<close>.

  Python strings are modelled as \<open>string\<close>; a \<open>char\<close> stands for a code point below 256.
  Python dictionaries with string keys and string values are association lists, read with
  \<open>map_of\<close> and written with \<open>AList.update\<close> (which keeps the position of an existing key and
  appends a new one, as a Python dictionary does). Logging is not modelled, and the
  constructors of the collaborators' clients are taken not to raise.
\<close>

subsection \<open>Strings: \<open>str.split()\<close>, \<open>str.join\<close>, list slices\<close>

text \<open>
  \<open>str.isspace\<close> on one character, for the code points below 256: tab, line feed, vertical
  tab, form feed, carriage return, the four separators \<open>0x1c\<close> to \<open>0x1f\<close>, space, \<open>0x85\<close> and
  the no-break space \<open>0xa0\<close>.
\<close>

definition isspace :: "char \<Rightarrow> bool" where
  "isspace c = (of_char c \<in> {9, 10, 11, 12, 13, 28, 29, 30, 31, 32, 133, 160 :: nat})"

text \<open>
  \<open>text.split()\<close> without a separator: the maximal runs of non-whitespace characters, in
  order. \<open>split_from cur text\<close> scans \<open>text\<close> with the token read so far in \<open>cur\<close>.
\<close>

fun split_from :: "string \<Rightarrow> string \<Rightarrow> string list" where
  "split_from cur [] = (if cur = [] then [] else [cur])"
| "split_from cur (c # cs) =
     (if isspace c then (if cur = [] then split_from [] cs else cur # split_from [] cs)
      else split_from (cur @ [c]) cs)"

definition str_split :: "string \<Rightarrow> string list" where
  "str_split text = split_from [] text"

text \<open>\<open>sep.join(ws)\<close>.\<close>

fun str_join :: "string \<Rightarrow> string list \<Rightarrow> string" where
  "str_join sep [] = []"
| "str_join sep [w] = w"
| "str_join sep (w # ws) = w @ sep @ str_join sep ws"

text \<open>
  The slice \<open>xs[:k]\<close>: the first \<open>k\<close> elements, and for a negative \<open>k\<close> all but the last
  \<open>-k\<close> (none when the list is shorter).
\<close>

definition slice_to :: "'a list \<Rightarrow> int \<Rightarrow> 'a list" where
  "slice_to xs k = (if k < 0 then take (nat (int (length xs) + k)) xs else take (nat k) xs)"

text \<open>
  \<^verbatim>\<open>def truncate_text(text: str, words: int) -> str:
    return " ".join(text.split()[:words])\<close>
\<close>

definition truncate_text :: "string \<Rightarrow> int \<Rightarrow> string" where
  "truncate_text text words = str_join '' '' (slice_to (str_split text) words)"

text \<open>\<open>news_summary_length = 5000\<close>\<close>

definition news_summary_length :: int where
  "news_summary_length = 5000"

subsection \<open>Dictionaries and exceptions\<close>

type_synonym pydict = "(string \<times> string) list"

text \<open>
  An exception is a \<open>KeyError\<close> of a failed subscript, or whatever a collaborator raises,
  kept by its description: \<open>str(e)\<close> is the key in quotes for a \<open>KeyError\<close> (the keys
  subscripted in this program are plain identifiers) and the description otherwise.
\<close>

datatype exn = KeyError string | Raised string

fun str_exn :: "exn \<Rightarrow> string" where
  "str_exn (KeyError k) = [CHR 0x27] @ k @ [CHR 0x27]"
| "str_exn (Raised msg) = msg"

text \<open>The subscript \<open>d[k]\<close>.\<close>

definition getitem :: "pydict \<Rightarrow> string \<Rightarrow> exn + string" where
  "getitem d k = (case map_of d k of None \<Rightarrow> Inl (KeyError k) | Some v \<Rightarrow> Inr v)"

subsection \<open>\<open>json.dumps\<close> on strings and on dictionaries of strings\<close>

definition hex_digit :: "nat \<Rightarrow> char" where
  "hex_digit n = ''0123456789abcdef'' ! (n mod 16)"

text \<open>
  With \<open>ensure_ascii\<close> (the default) the quote and the backslash are escaped, the control
  characters with a short form use it, and every other character outside space to tilde is
  written \<open>\u00XX\<close>.
\<close>

definition json_escape :: "char \<Rightarrow> string" where
  "json_escape c =
     (if c = CHR 0x22 then [CHR 0x5C, CHR 0x22]
      else if c = CHR 0x5C then [CHR 0x5C, CHR 0x5C]
      else if c = CHR 0x0A then [CHR 0x5C, CHR ''n'']
      else if c = CHR 0x0D then [CHR 0x5C, CHR ''r'']
      else if c = CHR 0x09 then [CHR 0x5C, CHR ''t'']
      else if c = CHR 0x08 then [CHR 0x5C, CHR ''b'']
      else if c = CHR 0x0C then [CHR 0x5C, CHR ''f'']
      else if 32 \<le> (of_char c :: nat) \<and> (of_char c :: nat) \<le> 126 then [c]
      else [CHR 0x5C, CHR ''u'', CHR ''0'', CHR ''0'',
            hex_digit (of_char c div 16), hex_digit (of_char c)])"

definition json_dumps_str :: "string \<Rightarrow> string" where
  "json_dumps_str s = [CHR 0x22] @ concat (map json_escape s) @ [CHR 0x22]"

definition json_dumps_dict :: "pydict \<Rightarrow> string" where
  "json_dumps_dict d =
     ''{'' @ str_join '', '' (map (\<lambda>(k, v). json_dumps_str k @ '': '' @ json_dumps_str v) d) @ ''}''"

subsection \<open>Collaborators, events and the process table\<close>

text \<open>
  The environment of one invocation: \<open>os.environ\<close> and the answer of each collaborator to
  each call, an exception (\<open>Inl\<close>) or a value. \<open>get_article_data\<close> answers \<open>None\<close> or a
  dictionary; \<open>update_item_raises\<close> says which writes the table refuses.
\<close>

record env =
  environ :: pydict
  ddgs_news :: "string \<Rightarrow> nat \<Rightarrow> exn + pydict list"
  get_article_data :: "string \<Rightarrow> exn + pydict option"
  article_summarizer_run :: "string \<Rightarrow> exn + string"
  article_writer_run :: "string \<Rightarrow> exn + string"
  update_item_raises :: "string \<Rightarrow> string \<Rightarrow> pydict \<Rightarrow> exn option"

text \<open>
  What an invocation does to the outside, in order: the collaborator calls made (with their
  arguments) and the table writes applied (table name, \<open>processId\<close>, the attributes set).
\<close>

datatype event =
    News string nat
  | GetArticleData string
  | SummarizerRun string
  | WriterRun string
  | UpdateItem string string pydict

type_synonym dynamodb = "string \<Rightarrow> string \<rightharpoonup> pydict"

text \<open>\<open>SET\<close> of an update expression: each named attribute is overwritten or added.\<close>

definition set_attrs :: "pydict \<Rightarrow> pydict \<Rightarrow> pydict" where
  "set_attrs item sets = fold (\<lambda>(k, v). AList.update k v) sets item"

text \<open>
  \<open>Table(tname).update_item(Key={"processId": key}, SET ...)\<close>: either the call raises and
  nothing is stored, or the item under the key (created with its key attribute when absent)
  gets the attributes; the other attributes of the item stay.
\<close>

definition apply_update :: "dynamodb \<Rightarrow> string \<Rightarrow> string \<Rightarrow> pydict \<Rightarrow> dynamodb" where
  "apply_update db tname key sets =
     db(tname := (db tname)(key \<mapsto>
          set_attrs (case db tname key of None \<Rightarrow> [(''processId'', key)] | Some item \<Rightarrow> item)
            sets))"

definition update_item :: "env \<Rightarrow> string \<Rightarrow> string \<Rightarrow> pydict \<Rightarrow> dynamodb \<Rightarrow> exn + dynamodb" where
  "update_item env tname key sets db =
     (case update_item_raises env tname key sets of
        Some e \<Rightarrow> Inl e
      | None \<Rightarrow> Inr (apply_update db tname key sets))"

subsection \<open>Collecting the articles (lines 39 to 49)\<close>

text \<open>
  \<^verbatim>\<open>if article_data and "text" in article_data:
    r["text"] = article_data["text"]
    news_results.append(r)\<close>
\<close>

definition keep_result :: "pydict \<Rightarrow> pydict option \<Rightarrow> pydict list \<Rightarrow> pydict list" where
  "keep_result r article_data news_results =
     (case article_data of
        None \<Rightarrow> news_results
      | Some d \<Rightarrow>
          if d \<noteq> [] then
            (case map_of d ''text'' of
               None \<Rightarrow> news_results
             | Some text \<Rightarrow> news_results @ [AList.update ''text'' text r])
          else news_results)"

text \<open>
  \<^verbatim>\<open>for r in results:
    if "url" in r:
        article_data = newspaper_tools.get_article_data(r["url"])
        ...\<close>
\<close>

fun collect_news_results ::
  "env \<Rightarrow> pydict list \<Rightarrow> pydict list \<Rightarrow> (exn + pydict list) \<times> event list" where
  "collect_news_results env [] news_results = (Inr news_results, [])"
| "collect_news_results env (r # results) news_results =
     (case map_of r ''url'' of
        None \<Rightarrow> collect_news_results env results news_results
      | Some url \<Rightarrow>
          (case get_article_data env url of
             Inl e \<Rightarrow> (Inl e, [GetArticleData url])
           | Inr article_data \<Rightarrow>
               (case collect_news_results env results (keep_result r article_data news_results) of
                  (res, evs) \<Rightarrow> (res, GetArticleData url # evs))))"

subsection \<open>Summarizing (lines 90 to 107)\<close>

text \<open>One turn of the loop, up to the separator appended in line 104.\<close>

definition summarize_article :: "env \<Rightarrow> pydict \<Rightarrow> string \<Rightarrow> (exn + string) \<times> event list" where
  "summarize_article env news_result news_summary =
     (case getitem news_result ''title'' of Inl e \<Rightarrow> (Inl e, []) | Inr title \<Rightarrow>
      let news_summary = news_summary @ ''### '' @ title @ ''\<newline>\<newline>'' in
      case getitem news_result ''date'' of Inl e \<Rightarrow> (Inl e, []) | Inr date \<Rightarrow>
      let news_summary = news_summary @ ''- Date: '' @ date @ ''\<newline>\<newline>'' in
      case getitem news_result ''url'' of Inl e \<Rightarrow> (Inl e, []) | Inr url \<Rightarrow>
      let news_summary = news_summary @ ''- URL: '' @ url @ ''\<newline>\<newline>'' in
      case getitem news_result ''body'' of Inl e \<Rightarrow> (Inl e, []) | Inr body \<Rightarrow>
      let news_summary = news_summary @ ''#### Introduction\<newline>\<newline>'' @ body @ ''\<newline>\<newline>'' in
      case getitem news_result ''text'' of Inl e \<Rightarrow> (Inl e, []) | Inr text \<Rightarrow>
      case article_summarizer_run env text of
        Inl e \<Rightarrow> (Inl e, [SummarizerRun text])
      | Inr summary \<Rightarrow>
          let summary_length = int (length (str_split summary));
              summary = (if summary_length > news_summary_length
                         then truncate_text summary news_summary_length else summary);
              news_summary = news_summary @ ''#### Summary\<newline>\<newline>'';
              news_summary = news_summary @ summary;
              news_summary = news_summary @ ''\<newline>\<newline>---\<newline>\<newline>''
          in (Inr news_summary, [SummarizerRun text]))"

text \<open>
  \<^verbatim>\<open>for news_result in news_results:
    ...
    if len(news_summary.split()) > news_summary_length:
        break\<close>
\<close>

fun summarize_articles :: "env \<Rightarrow> pydict list \<Rightarrow> string \<Rightarrow> (exn + string) \<times> event list" where
  "summarize_articles env [] news_summary = (Inr news_summary, [])"
| "summarize_articles env (news_result # rest) news_summary =
     (case summarize_article env news_result news_summary of
        (Inl e, evs) \<Rightarrow> (Inl e, evs)
      | (Inr news_summary', evs) \<Rightarrow>
          if int (length (str_split news_summary')) > news_summary_length
          then (Inr news_summary', evs)
          else (case summarize_articles env rest news_summary' of
                  (res, evs') \<Rightarrow> (res, evs @ evs')))"

subsection \<open>The draft (lines 109 to 116) and the body of the \<open>try\<close>\<close>

definition make_article_draft :: "string \<Rightarrow> string \<Rightarrow> string" where
  "make_article_draft question news_summary =
     (let article_draft = [];
          article_draft = article_draft @ ''# Topic: '' @ question @ ''\<newline>\<newline>''
      in if news_summary \<noteq> [] then
           (let article_draft = article_draft @ ''## Summary of News Articles\<newline>\<newline>'';
                article_draft = article_draft
                  @ ''This section provides a summary of the news articles about ''
                  @ question @ ''.\<newline>\<newline>'';
                article_draft = article_draft @ ''<news_summary>\<newline>\<newline>'';
                article_draft = article_draft @ news_summary @ ''\<newline>\<newline>'';
                article_draft = article_draft @ ''</news_summary>\<newline>\<newline>''
            in article_draft)
         else article_draft)"

text \<open>
  Lines 34 to 162: search, collect, summarize, draft, write. The result is the writer's text
  \<open>res\<close> or the exception that left the \<open>try\<close> body, with the events up to there.
\<close>

definition run_pipeline :: "env \<Rightarrow> string \<Rightarrow> (exn + string) \<times> event list" where
  "run_pipeline env question =
     (case ddgs_news env question 5 of
        Inl e \<Rightarrow> (Inl e, [News question 5])
      | Inr results \<Rightarrow>
          (case collect_news_results env results [] of
             (Inl e, evs1) \<Rightarrow> (Inl e, News question 5 # evs1)
           | (Inr news_results, evs1) \<Rightarrow>
               (case (if length news_results > 0
                      then summarize_articles env news_results []
                      else (Inr [], [])) of
                  (Inl e, evs2) \<Rightarrow> (Inl e, News question 5 # evs1 @ evs2)
                | (Inr news_summary, evs2) \<Rightarrow>
                    (let article_draft = make_article_draft question news_summary in
                     case article_writer_run env article_draft of
                       Inl e \<Rightarrow>
                         (Inl e, News question 5 # evs1 @ evs2 @ [WriterRun article_draft])
                     | Inr res \<Rightarrow>
                         (Inr res, News question 5 # evs1 @ evs2 @ [WriterRun article_draft])))))"

subsection \<open>The handler\<close>

text \<open>The dictionary the handler returns.\<close>

record response =
  statusCode :: nat
  body :: string
  headers :: pydict

text \<open>The \<open>except Exception as e\<close> block (lines 185 to 197), entered with the events so far.\<close>

definition on_exception ::
  "env \<Rightarrow> string \<Rightarrow> string \<Rightarrow> exn \<Rightarrow> dynamodb \<Rightarrow> event list
     \<Rightarrow> (exn + response) \<times> dynamodb \<times> event list" where
  "on_exception env tname process_id e db evs =
     (let sets = [(''status'', ''FAILED''), (''error'', str_exn e)] in
      case update_item env tname process_id sets db of
        Inl e' \<Rightarrow> (Inl e', db, evs)
      | Inr db' \<Rightarrow>
          (Inr \<lparr>statusCode = 500,
                body = json_dumps_dict [(''error'', ''An error occurred during processing'')],
                headers = [(''Content-Type'', ''application/json'')]\<rparr>,
           db', evs @ [UpdateItem tname process_id sets]))"

text \<open>
  \<open>handler(event, context)\<close>: the outcome is the response returned or the exception that
  leaves the handler, with the tables and the events of the invocation.
\<close>

definition handler :: "env \<Rightarrow> pydict \<Rightarrow> dynamodb \<Rightarrow> (exn + response) \<times> dynamodb \<times> event list" where
  "handler env event db =
     (case getitem event ''processId'' of Inl e \<Rightarrow> (Inl e, db, []) | Inr process_id \<Rightarrow>
      case getitem event ''question'' of Inl e \<Rightarrow> (Inl e, db, []) | Inr question \<Rightarrow>
      case getitem (environ env) ''PROCESS_TABLE'' of Inl e \<Rightarrow> (Inl e, db, []) | Inr tname \<Rightarrow>
      case update_item env tname process_id [(''status'', ''PROCESSING'')] db of
        Inl e \<Rightarrow> (Inl e, db, [])
      | Inr db1 \<Rightarrow>
          (let started = [UpdateItem tname process_id [(''status'', ''PROCESSING'')]] in
           case run_pipeline env question of
             (Inl e, evs) \<Rightarrow> on_exception env tname process_id e db1 (started @ evs)
           | (Inr res, evs) \<Rightarrow>
               (let sets = [(''status'', ''COMPLETED''), (''result'', json_dumps_str res)] in
                case update_item env tname process_id sets db1 of
                  Inl e \<Rightarrow> on_exception env tname process_id e db1 (started @ evs)
                | Inr db2 \<Rightarrow>
                    (Inr \<lparr>statusCode = 200,
                          body = json_dumps_dict
                            [(''processId'', process_id),
                             (''message'', ''Process completed successfully''),
                             (''result'', res)],
                          headers = [(''Content-Type'', ''application/json'')]\<rparr>,
                     db2, started @ evs @ [UpdateItem tname process_id sets]))))"

subsection \<open>Auxiliary notions for the statements\<close>

text \<open>A token: a non-empty string without whitespace, as \<open>str.split()\<close> returns them.\<close>

definition token :: "string \<Rightarrow> bool" where
  "token w = (w \<noteq> [] \<and> (\<forall>c \<in> set w. \<not> isspace c))"

text \<open>The status a table write sets, if the event is a write that sets one.\<close>

fun written_status :: "event \<Rightarrow> string option" where
  "written_status (UpdateItem tname key sets) = map_of sets ''status''"
| "written_status _ = None"

definition is_terminal_write :: "event \<Rightarrow> bool" where
  "is_terminal_write ev =
     (written_status ev = Some ''COMPLETED'' \<or> written_status ev = Some ''FAILED'')"

fun is_update :: "event \<Rightarrow> bool" where
  "is_update (UpdateItem tname key sets) = True"
| "is_update _ = False"

text \<open>The events of an outcome of the handler, and an attribute of an item it leaves stored.\<close>

definition events_of :: "(exn + response) \<times> dynamodb \<times> event list \<Rightarrow> event list" where
  "events_of outcome = snd (snd outcome)"

definition stored ::
  "(exn + response) \<times> dynamodb \<times> event list \<Rightarrow> string \<Rightarrow> string \<Rightarrow> string \<Rightarrow> string option" where
  "stored outcome tname key attr =
     (case fst (snd outcome) tname key of None \<Rightarrow> None | Some item \<Rightarrow> map_of item attr)"

subsection \<open>Concrete environments and inputs for the examples\<close>

text \<open>
  All collaborators answer, the search finds nothing, and the table is named \<open>processes\<close>.
\<close>

definition base_env :: env where
  "base_env = \<lparr>environ = [(''PROCESS_TABLE'', ''processes'')],
      ddgs_news = (\<lambda>keywords max_results. Inr []),
      get_article_data = (\<lambda>url. Inr None),
      article_summarizer_run = (\<lambda>text. Inr ''**Overview:**''),
      article_writer_run = (\<lambda>draft. Inr ''## A Title''),
      update_item_raises = (\<lambda>tname key sets. None)\<rparr>"

text \<open>The article writer raises an exception whose description is \<open>msg\<close>.\<close>

definition failing_writer_env :: "string \<Rightarrow> env" where
  "failing_writer_env msg = base_env\<lparr>article_writer_run := (\<lambda>draft. Inl (Raised msg))\<rparr>"

text \<open>
  The search finds one result without a link and one whose article cannot be extracted.
\<close>

definition no_text_env :: env where
  "no_text_env = base_env\<lparr>ddgs_news := (\<lambda>keywords max_results.
      Inr [[(''title'', ''No link'')], [(''url'', ''http://a''), (''title'', ''A'')]])\<rparr>"

definition empty_db :: dynamodb where
  "empty_db = (\<lambda>tname. Map.empty)"

definition demo_event :: pydict where
  "demo_event = [(''processId'', ''p1''), (''question'', ''q'')]"

text \<open>
  The selection of the collector in one expression, for the statement of the claim on it: a
  result with a \<open>url\<close> whose extraction returned a non-empty record with a \<open>text\<close> field is
  kept, with that text; any other result is dropped.
\<close>

definition usable_source :: "env \<Rightarrow> pydict \<Rightarrow> pydict option" where
  "usable_source env r =
     (case map_of r ''url'' of
        None \<Rightarrow> None
      | Some url \<Rightarrow>
          (case get_article_data env url of
             Inl e \<Rightarrow> None
           | Inr None \<Rightarrow> None
           | Inr (Some d) \<Rightarrow>
               if d = [] then None
               else map_option (\<lambda>t. AList.update ''text'' t r) (map_of d ''text'')))"

text \<open>An extractor that answers differently for four links, and one that extracts empty text.\<close>

definition extract_env :: env where
  "extract_env = base_env\<lparr>get_article_data := (\<lambda>url.
      if url = ''http://a'' then Inr (Some [(''title'', ''A''), (''text'', ''Full text of a'')])
      else if url = ''http://b'' then Inr None
      else if url = ''http://c'' then Inr (Some [(''title'', ''C'')])
      else Inr (Some [(''text'', ''Full text of e'')]))\<rparr>"

definition empty_text_env :: env where
  "empty_text_env = base_env\<lparr>get_article_data := (\<lambda>url. Inr (Some [(''title'', ''A''), (''text'', [])]))\<rparr>"

definition five_results :: "pydict list" where
  "five_results =
     [[(''title'', ''A''), (''url'', ''http://a'')],
      [(''title'', ''No link'')],
      [(''title'', ''B''), (''url'', ''http://b'')],
      [(''title'', ''C''), (''url'', ''http://c'')],
      [(''title'', ''E''), (''url'', ''http://e''), (''text'', ''old'')]]"

text \<open>A text of \<open>n\<close> words, and a summarizer that answers with long texts.\<close>

definition words :: "nat \<Rightarrow> string" where
  "words n = concat (replicate n ''w '')"

definition summary_env :: env where
  "summary_env = base_env\<lparr>article_summarizer_run := (\<lambda>full_text.
      if full_text = ''long'' then Inr (words 5001) else Inr (words 3000))\<rparr>"

definition long_record :: pydict where
  "long_record = [(''title'', ''T''), (''date'', ''D''), (''url'', ''http://l''),
                  (''body'', ''B''), (''text'', ''long'')]"

text \<open>
  The section one record contributes to the summary (what one turn of the loop appends),
  the text of a record, and the text a summarizer call was made on.
\<close>

definition section_of :: "env \<Rightarrow> pydict \<Rightarrow> exn + string" where
  "section_of env r = fst (summarize_article env r [])"

definition text_of :: "pydict \<Rightarrow> string option" where
  "text_of r = map_of r ''text''"

fun summarized_text :: "event \<Rightarrow> string option" where
  "summarized_text (SummarizerRun full_text) = Some full_text"
| "summarized_text _ = None"

text \<open>Three records whose summaries have 3000 words each.\<close>

definition three_records :: "pydict list" where
  "three_records =
     [[(''title'', ''T1''), (''date'', ''D1''), (''url'', ''http://1''), (''body'', ''B1''),
       (''text'', ''t1'')],
      [(''title'', ''T2''), (''date'', ''D2''), (''url'', ''http://2''), (''body'', ''B2''),
       (''text'', ''t2'')],
      [(''title'', ''T3''), (''date'', ''D3''), (''url'', ''http://3''), (''body'', ''B3''),
       (''text'', ''t3'')]]"

section \<open>Splitting, joining and truncating\<close>

lemma split_from_nonspace:
  "\<forall>c \<in> set w. \<not> isspace c \<Longrightarrow> split_from cur (w @ s) = split_from (cur @ w) s"
  by (induction w arbitrary: cur) auto

lemma split_from_tokens:
  "\<forall>c \<in> set cur. \<not> isspace c \<Longrightarrow> \<forall>w \<in> set (split_from cur s). token w"
proof (induction s arbitrary: cur)
  case Nil
  then show ?case by (simp add: token_def)
next
  case (Cons a s)
  have nil: "\<forall>w \<in> set (split_from [] s). token w"
    using Cons.IH [of "[]"] by simp
  show ?case
  proof (cases "isspace a")
    case True
    with nil Cons.prems show ?thesis by (simp add: token_def)
  next
    case False
    with Cons.prems have "\<forall>c \<in> set (cur @ [a]). \<not> isspace c" by simp
    from Cons.IH [OF this] False show ?thesis by simp
  qed
qed

lemma str_split_tokens: "\<forall>w \<in> set (str_split s). token w"
  using split_from_tokens [of "[]" s] by (simp add: str_split_def)

lemma isspace_space: "isspace CHR '' ''"
  by (simp add: isspace_def)

text \<open>Splitting undoes joining by single spaces, on tokens.\<close>

lemma split_join:
  "sep = '' '' \<Longrightarrow> \<forall>w \<in> set ws. token w \<Longrightarrow> str_split (str_join sep ws) = ws"
proof (induction sep ws rule: str_join.induct [case_names Nil One More])
  case (Nil sep)
  show ?case by (simp add: str_split_def)
next
  case (One sep w)
  then have "split_from [] (w @ []) = split_from ([] @ w) []"
    by (intro split_from_nonspace) (simp add: token_def)
  with One show ?case by (simp add: str_split_def token_def)
next
  case (More sep w v vs)
  then have w: "token w" and rest: "str_split (str_join '' '' (v # vs)) = v # vs"
    and sep: "sep = '' ''"
    by simp_all
  have "split_from [] (w @ '' '' @ str_join '' '' (v # vs))
        = split_from ([] @ w) ('' '' @ str_join '' '' (v # vs))"
    using w by (intro split_from_nonspace) (simp add: token_def)
  also have "\<dots> = w # split_from [] (str_join '' '' (v # vs))"
    using w by (simp add: isspace_space token_def)
  finally show ?case using rest sep by (simp add: str_split_def)
qed

lemma slice_to_nonneg: "0 \<le> k \<Longrightarrow> slice_to xs k = take (nat k) xs"
  by (simp add: slice_to_def)

lemma split_truncate:
  "0 \<le> k \<Longrightarrow> str_split (truncate_text s k) = take (nat k) (str_split s)"
  using str_split_tokens [of s]
  by (auto simp: truncate_text_def slice_to_nonneg intro!: split_join dest: in_set_takeD)

text \<open>
  Claim C6. For every text and every \<open>maxWords \<ge> 0\<close>, the number of whitespace-delimited
  tokens of \<open>truncate_text text maxWords\<close> is the minimum of the number of tokens of the text
  and \<open>maxWords\<close>; truncating the empty string gives the empty string.
\<close>

theorem truncate_text_word_count:
  "0 \<le> maxWords \<Longrightarrow>
     int (length (str_split (truncate_text s maxWords)))
       = min (int (length (str_split s))) maxWords
     \<and> truncate_text [] maxWords = []"
  by (auto simp: split_truncate) (simp add: truncate_text_def str_split_def slice_to_def)

theorem truncate_text_word_count_witness:
  "(0::int) \<le> 2
     \<and> int (length (str_split (truncate_text ''a  b c'' 2)))
         = min (int (length (str_split ''a  b c''))) 2
     \<and> truncate_text [] 2 = []
     \<and> truncate_text ''a  b c'' 2 = ''a b''"
  using truncate_text_word_count [of 2 "''a  b c''"]
  by (simp add: truncate_text_def str_split_def slice_to_def isspace_def)

text \<open>
  Claim C9, as stated: a text with at most \<open>maxWords\<close> tokens is returned unchanged. It fails
  on a text whose tokens are not separated by exactly one space: \<open>"a  b"\<close> (two spaces) has
  two tokens and \<open>truncate_text "a  b" 2\<close> is \<open>"a b"\<close>.
\<close>

theorem truncate_text_identity_counterexample:
  "int (length (str_split ''a  b'')) \<le> 2 \<and> truncate_text ''a  b'' 2 \<noteq> ''a  b''"
  by (simp add: truncate_text_def str_split_def slice_to_def isspace_def)

text \<open>
  Claim C9, amended. For every text with at most \<open>maxWords\<close> tokens (\<open>maxWords \<ge> 0\<close>),
  \<open>truncate_text\<close> returns the tokens of the text joined by single spaces: the sequence of
  tokens is unchanged, and the text itself is returned unchanged exactly when it already is
  its tokens joined by single spaces (no leading, trailing or repeated whitespace, and no
  whitespace other than the space).
\<close>

theorem truncate_text_within_budget:
  "0 \<le> maxWords \<Longrightarrow> int (length (str_split s)) \<le> maxWords \<Longrightarrow>
     truncate_text s maxWords = str_join '' '' (str_split s)
     \<and> str_split (truncate_text s maxWords) = str_split s
     \<and> (truncate_text s maxWords = s \<longleftrightarrow> str_join '' '' (str_split s) = s)"
  by (simp add: split_truncate) (simp add: truncate_text_def slice_to_def)

theorem truncate_text_within_budget_witness:
  "(0::int) \<le> 5 \<and> int (length (str_split ''a\<newline>b c''))  \<le> 5
     \<and> truncate_text ''a\<newline>b c'' 5 = ''a b c''
     \<and> str_split (truncate_text ''a\<newline>b c'' 5) = str_split ''a\<newline>b c''
     \<and> truncate_text ''a b c'' 5 = ''a b c''"
  using truncate_text_within_budget [of 5 "''a\<newline>b c''"]
    truncate_text_within_budget [of 5 "''a b c''"]
  by (simp add: str_split_def isspace_def)

section \<open>Events of the pipeline\<close>

lemma collect_events:
  "collect_news_results env results acc = (res, evs) \<Longrightarrow> set evs \<subseteq> range GetArticleData"
proof (induction results arbitrary: acc res evs)
  case Nil
  then show ?case by simp
next
  case (Cons r results)
  show ?case
  proof (cases "map_of r ''url''")
    case None
    with Cons show ?thesis by simp
  next
    case (Some url)
    show ?thesis
    proof (cases "get_article_data env url")
      case (Inl e)
      with Some Cons.prems show ?thesis by auto
    next
      case (Inr article_data)
      obtain res' evs' where rest:
        "collect_news_results env results (keep_result r article_data acc) = (res', evs')"
        by (cases "collect_news_results env results (keep_result r article_data acc)")
      from Cons.IH [OF rest] Some Inr rest Cons.prems show ?thesis by auto
    qed
  qed
qed

lemma summarize_article_events:
  "summarize_article env r ns = (res, evs) \<Longrightarrow> set evs \<subseteq> range SummarizerRun"
  by (auto simp: summarize_article_def Let_def split: sum.splits)

lemma summarize_articles_events:
  "summarize_articles env rs ns = (res, evs) \<Longrightarrow> set evs \<subseteq> range SummarizerRun"
proof (induction rs arbitrary: ns res evs)
  case Nil
  then show ?case by simp
next
  case (Cons r rs)
  obtain res1 evs1 where one: "summarize_article env r ns = (res1, evs1)"
    by (cases "summarize_article env r ns")
  note ev1 = summarize_article_events [OF one]
  show ?case
  proof (cases res1)
    case (Inl e)
    with one ev1 Cons.prems show ?thesis by auto
  next
    case (Inr ns')
    obtain res2 evs2 where rest: "summarize_articles env rs ns' = (res2, evs2)"
      by (cases "summarize_articles env rs ns'")
    from Cons.IH [OF rest] Inr one ev1 rest Cons.prems show ?thesis
      by (auto split: if_splits)
  qed
qed

text \<open>The body of the \<open>try\<close> writes nothing to the table.\<close>

lemma run_pipeline_events:
  assumes run: "run_pipeline env question = (res, evs)" and ev: "ev \<in> set evs"
  shows "\<not> is_update ev"
proof -
  have "set evs \<subseteq> range (News question) \<union> range GetArticleData \<union> range SummarizerRun
          \<union> range WriterRun"
  proof (cases "ddgs_news env question 5")
    case (Inl e)
    with run show ?thesis by (auto simp: run_pipeline_def)
  next
    case (Inr results)
    obtain res1 evs1 where c: "collect_news_results env results [] = (res1, evs1)"
      by (cases "collect_news_results env results []")
    note e1 = collect_events [OF c]
    show ?thesis
    proof (cases res1)
      case (Inl e)
      with Inr c e1 run show ?thesis by (auto simp: run_pipeline_def)
    next
      case r1: (Inr news_results)
      obtain res2 evs2 where s:
        "(if length news_results > 0 then summarize_articles env news_results []
          else (Inr [], [])) = (res2, evs2)"
        by (cases "if length news_results > 0 then summarize_articles env news_results []
                   else (Inr [], [])")
      then have e2: "set evs2 \<subseteq> range SummarizerRun"
        using summarize_articles_events [of env news_results "[]" res2 evs2]
        by (auto split: if_splits)
      show ?thesis
      proof (cases res2)
        case (Inl e)
        with Inr c r1 s e1 e2 run show ?thesis
          by (auto simp: run_pipeline_def)
      next
        case r2: (Inr news_summary)
        with Inr c r1 s e1 e2 run show ?thesis
          by (auto simp: run_pipeline_def Let_def split: sum.splits)
      qed
    qed
  qed
  with ev show ?thesis by auto
qed

text \<open>A result of the \<open>try\<close> body is what the article writer returned, on its last call.\<close>

lemma run_pipeline_result:
  "run_pipeline env question = (Inr res, evs) \<Longrightarrow>
     \<exists>pre draft. evs = pre @ [WriterRun draft] \<and> article_writer_run env draft = Inr res"
  by (auto simp: run_pipeline_def Let_def split: sum.splits prod.splits if_splits)

section \<open>The handler's paths\<close>

lemma map_of_set_attrs1:
  "map_of (set_attrs item [(k1, v1)]) = (map_of item)(k1 \<mapsto> v1)"
  by (simp add: set_attrs_def update_conv')

lemma map_of_set_attrs2:
  "map_of (set_attrs item [(k1, v1), (k2, v2)]) = ((map_of item)(k1 \<mapsto> v1))(k2 \<mapsto> v2)"
  by (simp add: set_attrs_def update_conv')

lemma update_item_ok:
  "update_item_raises env tname key sets = None \<Longrightarrow>
     update_item env tname key sets db = Inr (apply_update db tname key sets)"
  by (simp add: update_item_def)

lemma apply_update_same:
  "apply_update db tname key sets tname key
     = Some (set_attrs (case db tname key of None \<Rightarrow> [(''processId'', key)] | Some item \<Rightarrow> item) sets)"
  by (simp add: apply_update_def)

lemma apply_update_other:
  "(t, k) \<noteq> (tname, key) \<Longrightarrow> apply_update db tname key sets t k = db t k"
  by (auto simp: apply_update_def)

lemma json_dumps_str_nonempty: "json_dumps_str s \<noteq> []"
  by (simp add: json_dumps_str_def)

lemma error_body:
  "json_dumps_dict [(''error'', ''An error occurred during processing'')]
     = ''{\"error\": \"An error occurred during processing\"}''"
  by (simp add: json_dumps_dict_def json_dumps_str_def json_escape_def)

lemma success_body:
  "json_dumps_dict
     [(''processId'', process_id), (''message'', ''Process completed successfully''),
      (''result'', res)]
   = ''{\"processId\": '' @ json_dumps_str process_id
       @ '', \"message\": \"Process completed successfully\", \"result\": ''
       @ json_dumps_str res @ ''}''"
  by (simp add: json_dumps_dict_def) (simp add: json_dumps_str_def json_escape_def)

lemma on_exception_ok:
  assumes "update_item_raises env tname process_id
             [(''status'', ''FAILED''), (''error'', str_exn e)] = None"
  shows "on_exception env tname process_id e db evs =
     (Inr \<lparr>statusCode = 500,
           body = ''{\"error\": \"An error occurred during processing\"}'',
           headers = [(''Content-Type'', ''application/json'')]\<rparr>,
      apply_update db tname process_id [(''status'', ''FAILED''), (''error'', str_exn e)],
      evs @ [UpdateItem tname process_id [(''status'', ''FAILED''), (''error'', str_exn e)]])"
  using assms by (simp add: on_exception_def Let_def update_item_ok error_body)

text \<open>The path through the \<open>except\<close> block after a failure of the \<open>try\<close> body.\<close>

lemma handler_failed:
  assumes pid: "getitem event ''processId'' = Inr process_id"
    and q: "getitem event ''question'' = Inr question"
    and tn: "getitem (environ env) ''PROCESS_TABLE'' = Inr tname"
    and w1: "update_item_raises env tname process_id [(''status'', ''PROCESSING'')] = None"
    and run: "run_pipeline env question = (Inl e, evs)"
    and w2: "update_item_raises env tname process_id
               [(''status'', ''FAILED''), (''error'', str_exn e)] = None"
  shows "handler env event db =
     (Inr \<lparr>statusCode = 500,
           body = ''{\"error\": \"An error occurred during processing\"}'',
           headers = [(''Content-Type'', ''application/json'')]\<rparr>,
      apply_update (apply_update db tname process_id [(''status'', ''PROCESSING'')])
        tname process_id [(''status'', ''FAILED''), (''error'', str_exn e)],
      UpdateItem tname process_id [(''status'', ''PROCESSING'')] # evs
        @ [UpdateItem tname process_id [(''status'', ''FAILED''), (''error'', str_exn e)]])"
  using pid q tn run
  by (simp add: handler_def Let_def update_item_ok [OF w1] on_exception_ok [OF w2])

text \<open>The path to the \<open>return\<close> of line 174.\<close>

lemma handler_completed:
  assumes pid: "getitem event ''processId'' = Inr process_id"
    and q: "getitem event ''question'' = Inr question"
    and tn: "getitem (environ env) ''PROCESS_TABLE'' = Inr tname"
    and w1: "update_item_raises env tname process_id [(''status'', ''PROCESSING'')] = None"
    and run: "run_pipeline env question = (Inr res, evs)"
    and w2: "update_item_raises env tname process_id
               [(''status'', ''COMPLETED''), (''result'', json_dumps_str res)] = None"
  shows "handler env event db =
     (Inr \<lparr>statusCode = 200,
           body = ''{\"processId\": '' @ json_dumps_str process_id
                  @ '', \"message\": \"Process completed successfully\", \"result\": ''
                  @ json_dumps_str res @ ''}'',
           headers = [(''Content-Type'', ''application/json'')]\<rparr>,
      apply_update (apply_update db tname process_id [(''status'', ''PROCESSING'')])
        tname process_id [(''status'', ''COMPLETED''), (''result'', json_dumps_str res)],
      UpdateItem tname process_id [(''status'', ''PROCESSING'')] # evs
        @ [UpdateItem tname process_id
             [(''status'', ''COMPLETED''), (''result'', json_dumps_str res)]])"
  using pid q tn run
  by (simp add: handler_def Let_def update_item_ok [OF w1] update_item_ok [OF w2] success_body)

subsection \<open>The concrete environments\<close>

lemma base_env_sel:
  "environ base_env = [(''PROCESS_TABLE'', ''processes'')]"
  "update_item_raises base_env = (\<lambda>tname key sets. None)"
  by (simp_all add: base_env_def)

lemma failing_writer_env_sel:
  "environ (failing_writer_env msg) = [(''PROCESS_TABLE'', ''processes'')]"
  "update_item_raises (failing_writer_env msg) = (\<lambda>tname key sets. None)"
  by (simp_all add: failing_writer_env_def base_env_def)

lemma no_text_env_sel:
  "environ no_text_env = [(''PROCESS_TABLE'', ''processes'')]"
  "update_item_raises no_text_env = (\<lambda>tname key sets. None)"
  by (simp_all add: no_text_env_def base_env_def)

lemma demo_event_items:
  "getitem demo_event ''processId'' = Inr ''p1''"
  "getitem demo_event ''question'' = Inr ''q''"
  by (simp_all add: demo_event_def getitem_def)

lemma run_failing_writer:
  "run_pipeline (failing_writer_env msg) ''q''
     = (Inl (Raised msg), [News ''q'' 5, WriterRun ''# Topic: q\<newline>\<newline>''])"
  by (simp add: run_pipeline_def make_article_draft_def failing_writer_env_def base_env_def)

lemma run_base:
  "run_pipeline base_env ''q''
     = (Inr ''## A Title'', [News ''q'' 5, WriterRun ''# Topic: q\<newline>\<newline>''])"
  by (simp add: run_pipeline_def make_article_draft_def base_env_def)

section \<open>The lifecycle claims\<close>

text \<open>
  Claim C10. When the event lacks the key \<open>processId\<close> or the key \<open>question\<close>, the handler
  raises (a \<open>KeyError\<close> of the first missing key) before any write: the tables are unchanged,
  no event has happened and no response is returned.
\<close>

theorem handler_missing_key:
  "map_of event ''processId'' = None \<or> map_of event ''question'' = None \<Longrightarrow>
     handler env event db =
       (Inl (KeyError (if map_of event ''processId'' = None then ''processId'' else ''question'')),
        db, [])"
  by (auto simp: handler_def getitem_def split: option.splits)

theorem handler_missing_key_witness:
  "(map_of [(''processId'', ''p1'')] ''processId'' = None
      \<or> map_of [(''processId'', ''p1'')] ''question'' = (None :: string option))
   \<and> handler base_env [(''processId'', ''p1'')] empty_db
       = (Inl (KeyError ''question''), empty_db, [])
   \<and> handler base_env [(''question'', ''q'')] empty_db
       = (Inl (KeyError ''processId''), empty_db, [])"
  using handler_missing_key [of "[(''processId'', ''p1'')]" base_env empty_db]
    handler_missing_key [of "[(''question'', ''q'')]" base_env empty_db]
  by simp

text \<open>
  Claim C1, as stated: the \<open>error\<close> field is a non-empty string. The field is \<open>str(e)\<close>, and
  an exception raised without a description has the empty one: when the article writer
  raises such an exception, the stored \<open>error\<close> is the empty string.
\<close>

theorem handler_empty_error_counterexample:
  "run_pipeline (failing_writer_env []) ''q''
     = (Inl (Raised []), [News ''q'' 5, WriterRun ''# Topic: q\<newline>\<newline>''])
   \<and> stored (handler (failing_writer_env []) demo_event empty_db) ''processes'' ''p1'' ''status''
       = Some ''FAILED''
   \<and> stored (handler (failing_writer_env []) demo_event empty_db) ''processes'' ''p1'' ''error''
       = Some []"
  by (simp add: run_failing_writer handler_def on_exception_def update_item_def apply_update_def
      set_attrs_def stored_def Let_def failing_writer_env_sel empty_db_def demo_event_def
      getitem_def)

text \<open>
  Claim C1, amended. Let the event carry \<open>processId\<close> and \<open>question\<close>, let the table be
  configured and accept the \<open>PROCESSING\<close> write, and let a stage of the pipeline (search,
  extraction, summarization or composition) raise an exception \<open>e\<close>. Provided the table
  accepts the write, the handler then writes exactly \<open>status = FAILED\<close> and
  \<open>error = str(e)\<close> (the description of the exception, which is empty when the exception has
  no description), as the last event and the only write after \<open>PROCESSING\<close>; it sets no
  \<open>result\<close> (the item's \<open>result\<close> attribute stays what it was), leaves every other item
  alone, and returns status code 500 with the body \<open>{"error": "An error occurred during
  processing"}\<close>.
\<close>

theorem handler_stage_failure:
  assumes pid: "getitem event ''processId'' = Inr process_id"
    and q: "getitem event ''question'' = Inr question"
    and tn: "getitem (environ env) ''PROCESS_TABLE'' = Inr tname"
    and w1: "update_item_raises env tname process_id [(''status'', ''PROCESSING'')] = None"
    and run: "run_pipeline env question = (Inl e, evs)"
    and w2: "update_item_raises env tname process_id
               [(''status'', ''FAILED''), (''error'', str_exn e)] = None"
  shows "fst (handler env event db)
       = Inr \<lparr>statusCode = 500,
              body = ''{\"error\": \"An error occurred during processing\"}'',
              headers = [(''Content-Type'', ''application/json'')]\<rparr>
     \<and> events_of (handler env event db)
       = UpdateItem tname process_id [(''status'', ''PROCESSING'')] # evs
          @ [UpdateItem tname process_id [(''status'', ''FAILED''), (''error'', str_exn e)]]
     \<and> (\<forall>ev \<in> set evs. \<not> is_update ev)
     \<and> stored (handler env event db) tname process_id ''status'' = Some ''FAILED''
     \<and> stored (handler env event db) tname process_id ''error'' = Some (str_exn e)
     \<and> stored (handler env event db) tname process_id ''result''
         = (case db tname process_id of None \<Rightarrow> None | Some old \<Rightarrow> map_of old ''result'')
     \<and> (\<forall>t k. (t, k) \<noteq> (tname, process_id) \<longrightarrow> fst (snd (handler env event db)) t k = db t k)"
proof -
  have noup: "\<forall>ev \<in> set evs. \<not> is_update ev"
    using run_pipeline_events [OF run] by blast
  show ?thesis
    unfolding handler_failed [OF pid q tn w1 run w2]
    using noup
    by (auto simp: events_of_def stored_def apply_update_same apply_update_other
        map_of_set_attrs2 map_of_set_attrs1 split: option.splits)
qed

theorem handler_stage_failure_witness:
  "run_pipeline (failing_writer_env ''timed out'') ''q''
     = (Inl (Raised ''timed out''), [News ''q'' 5, WriterRun ''# Topic: q\<newline>\<newline>''])
   \<and> fst (handler (failing_writer_env ''timed out'') demo_event empty_db)
       = Inr \<lparr>statusCode = 500,
              body = ''{\"error\": \"An error occurred during processing\"}'',
              headers = [(''Content-Type'', ''application/json'')]\<rparr>
   \<and> events_of (handler (failing_writer_env ''timed out'') demo_event empty_db)
       = [UpdateItem ''processes'' ''p1'' [(''status'', ''PROCESSING'')],
          News ''q'' 5, WriterRun ''# Topic: q\<newline>\<newline>'',
          UpdateItem ''processes'' ''p1'' [(''status'', ''FAILED''), (''error'', ''timed out'')]]
   \<and> stored (handler (failing_writer_env ''timed out'') demo_event empty_db)
         ''processes'' ''p1'' ''status'' = Some ''FAILED''
   \<and> stored (handler (failing_writer_env ''timed out'') demo_event empty_db)
         ''processes'' ''p1'' ''error'' = Some ''timed out''
   \<and> stored (handler (failing_writer_env ''timed out'') demo_event empty_db)
         ''processes'' ''p1'' ''result'' = None"
proof -
  have w: "update_item_raises (failing_writer_env ''timed out'') ''processes'' ''p1''
             [(''status'', ''PROCESSING'')] = None"
    "update_item_raises (failing_writer_env ''timed out'') ''processes'' ''p1''
        [(''status'', ''FAILED''), (''error'', str_exn (Raised ''timed out''))] = None"
    "getitem (environ (failing_writer_env ''timed out'')) ''PROCESS_TABLE'' = Inr ''processes''"
    by (simp_all add: failing_writer_env_sel getitem_def)
  from handler_stage_failure [OF demo_event_items w(3) w(1) run_failing_writer w(2), of empty_db]
  show ?thesis
    by (simp add: run_failing_writer empty_db_def)
qed

text \<open>
  Claim C2, as stated: the stored \<open>result\<close> is the exact text returned by the composer. When
  the writer returns \<open>## A Title\<close>, the stored \<open>result\<close> is that text in double quotes.
\<close>

theorem handler_result_unchanged_counterexample:
  "run_pipeline base_env ''q''
     = (Inr ''## A Title'', [News ''q'' 5, WriterRun ''# Topic: q\<newline>\<newline>''])
   \<and> stored (handler base_env demo_event empty_db) ''processes'' ''p1'' ''result''
       = Some ''\"## A Title\"''
   \<and> stored (handler base_env demo_event empty_db) ''processes'' ''p1'' ''result''
       \<noteq> Some ''## A Title''"
  by (simp add: run_base handler_def on_exception_def update_item_def apply_update_def
      set_attrs_def stored_def Let_def json_dumps_str_def json_escape_def base_env_sel
      empty_db_def demo_event_def getitem_def)

text \<open>
  Claim C2, amended. Let the event carry \<open>processId\<close> and \<open>question\<close>, let the table be
  configured and accept both writes, and let all stages succeed, the article writer
  returning \<open>res\<close>. Then the handler performs, as its last event and its only write after
  \<open>PROCESSING\<close>, one write that sets \<open>status = COMPLETED\<close> together with
  \<open>result = json.dumps(res)\<close>: the text returned by the writer in its JSON string encoding
  (in double quotes, with escapes), not the text itself. It returns status code 200 with a
  JSON body of \<open>processId\<close>, a message and \<open>result\<close>, the latter being \<open>res\<close> itself.
\<close>

theorem handler_success:
  assumes pid: "getitem event ''processId'' = Inr process_id"
    and q: "getitem event ''question'' = Inr question"
    and tn: "getitem (environ env) ''PROCESS_TABLE'' = Inr tname"
    and w1: "update_item_raises env tname process_id [(''status'', ''PROCESSING'')] = None"
    and run: "run_pipeline env question = (Inr res, evs)"
    and w2: "update_item_raises env tname process_id
               [(''status'', ''COMPLETED''), (''result'', json_dumps_str res)] = None"
  shows "fst (handler env event db)
       = Inr \<lparr>statusCode = 200,
              body = ''{\"processId\": '' @ json_dumps_str process_id
                     @ '', \"message\": \"Process completed successfully\", \"result\": ''
                     @ json_dumps_str res @ ''}'',
              headers = [(''Content-Type'', ''application/json'')]\<rparr>
     \<and> events_of (handler env event db)
       = UpdateItem tname process_id [(''status'', ''PROCESSING'')] # evs
          @ [UpdateItem tname process_id
               [(''status'', ''COMPLETED''), (''result'', json_dumps_str res)]]
     \<and> (\<forall>ev \<in> set evs. \<not> is_update ev)
     \<and> (\<exists>pre draft. evs = pre @ [WriterRun draft] \<and> article_writer_run env draft = Inr res)
     \<and> stored (handler env event db) tname process_id ''status'' = Some ''COMPLETED''
     \<and> stored (handler env event db) tname process_id ''result'' = Some (json_dumps_str res)
     \<and> json_dumps_str res = [CHR 0x22] @ concat (map json_escape res) @ [CHR 0x22]"
proof -
  have noup: "\<forall>ev \<in> set evs. \<not> is_update ev"
    using run_pipeline_events [OF run] by blast
  show ?thesis
    unfolding handler_completed [OF pid q tn w1 run w2]
    using noup run_pipeline_result [OF run]
    by (auto simp: events_of_def stored_def apply_update_same map_of_set_attrs2
        json_dumps_str_def)
qed

theorem handler_success_witness:
  "run_pipeline base_env ''q''
     = (Inr ''## A Title'', [News ''q'' 5, WriterRun ''# Topic: q\<newline>\<newline>''])
   \<and> fst (handler base_env demo_event empty_db)
       = Inr \<lparr>statusCode = 200,
              body = ''{\"processId\": \"p1\", \"message\": \"Process completed successfully\", \"result\": \"## A Title\"}'',
              headers = [(''Content-Type'', ''application/json'')]\<rparr>
   \<and> events_of (handler base_env demo_event empty_db)
       = [UpdateItem ''processes'' ''p1'' [(''status'', ''PROCESSING'')],
          News ''q'' 5, WriterRun ''# Topic: q\<newline>\<newline>'',
          UpdateItem ''processes'' ''p1''
            [(''status'', ''COMPLETED''), (''result'', ''\"## A Title\"'')]]
   \<and> stored (handler base_env demo_event empty_db) ''processes'' ''p1'' ''status''
       = Some ''COMPLETED''
   \<and> stored (handler base_env demo_event empty_db) ''processes'' ''p1'' ''result''
       = Some ''\"## A Title\"''"
proof -
  have w: "update_item_raises base_env ''processes'' ''p1'' [(''status'', ''PROCESSING'')] = None"
    "update_item_raises base_env ''processes'' ''p1''
        [(''status'', ''COMPLETED''), (''result'', json_dumps_str ''## A Title'')] = None"
    "getitem (environ base_env) ''PROCESS_TABLE'' = Inr ''processes''"
    by (simp_all add: base_env_sel getitem_def)
  from handler_success [OF demo_event_items w(3) w(1) run_base w(2), of empty_db]
  show ?thesis
    by (simp add: run_base json_dumps_str_def json_escape_def)
qed

lemma run_pipeline_no_sources:
  assumes search: "ddgs_news env question 5 = Inr results"
    and none: "collect_news_results env results [] = (Inr [], evs)"
    and compose: "article_writer_run env (''# Topic: '' @ question @ ''\<newline>\<newline>'') = Inr res"
  shows "run_pipeline env question
     = (Inr res, News question 5 # evs @ [WriterRun (''# Topic: '' @ question @ ''\<newline>\<newline>'')])"
  using assms by (simp add: run_pipeline_def make_article_draft_def)

text \<open>
  Claim C8. Let the event carry \<open>processId\<close> and \<open>question\<close>, let the table be configured
  and accept the writes, let the search return results of which the collection keeps none,
  and let the article writer return \<open>res\<close> on the draft that is only the topic header line.
  Then the invocation completes: it writes \<open>PROCESSING\<close>, searches, calls the extractor only
  (the summarizer is not run), runs the article writer on the draft \<open># Topic: question\<close>
  without any "Summary of News Articles" block, and writes \<open>COMPLETED\<close> with a \<open>result\<close>
  that is not empty; the response has status code 200.
\<close>

theorem handler_no_sources:
  assumes pid: "getitem event ''processId'' = Inr process_id"
    and q: "getitem event ''question'' = Inr question"
    and tn: "getitem (environ env) ''PROCESS_TABLE'' = Inr tname"
    and w1: "update_item_raises env tname process_id [(''status'', ''PROCESSING'')] = None"
    and search: "ddgs_news env question 5 = Inr results"
    and none: "collect_news_results env results [] = (Inr [], evs)"
    and compose: "article_writer_run env (''# Topic: '' @ question @ ''\<newline>\<newline>'') = Inr res"
    and w2: "update_item_raises env tname process_id
               [(''status'', ''COMPLETED''), (''result'', json_dumps_str res)] = None"
  shows "events_of (handler env event db)
       = UpdateItem tname process_id [(''status'', ''PROCESSING'')] # News question 5 # evs
          @ [WriterRun (''# Topic: '' @ question @ ''\<newline>\<newline>''),
             UpdateItem tname process_id
               [(''status'', ''COMPLETED''), (''result'', json_dumps_str res)]]
     \<and> set evs \<subseteq> range GetArticleData
     \<and> (\<exists>resp. fst (handler env event db) = Inr resp \<and> statusCode resp = 200)
     \<and> stored (handler env event db) tname process_id ''status'' = Some ''COMPLETED''
     \<and> stored (handler env event db) tname process_id ''result'' = Some (json_dumps_str res)
     \<and> json_dumps_str res \<noteq> []"
proof -
  note run = run_pipeline_no_sources [OF search none compose]
  show ?thesis
    unfolding handler_completed [OF pid q tn w1 run w2]
    using collect_events [OF none]
    by (simp add: events_of_def stored_def apply_update_same map_of_set_attrs2
        json_dumps_str_nonempty)
qed

lemma collect_no_text:
  "collect_news_results no_text_env
     [[(''title'', ''No link'')], [(''url'', ''http://a''), (''title'', ''A'')]] []
   = (Inr [], [GetArticleData ''http://a''])"
  by (simp add: no_text_env_def base_env_def keep_result_def)

theorem handler_no_sources_witness:
  "ddgs_news no_text_env ''q'' 5
     = Inr [[(''title'', ''No link'')], [(''url'', ''http://a''), (''title'', ''A'')]]
   \<and> collect_news_results no_text_env
       [[(''title'', ''No link'')], [(''url'', ''http://a''), (''title'', ''A'')]] []
     = (Inr [], [GetArticleData ''http://a''])
   \<and> events_of (handler no_text_env demo_event empty_db)
     = [UpdateItem ''processes'' ''p1'' [(''status'', ''PROCESSING'')],
        News ''q'' 5, GetArticleData ''http://a'', WriterRun ''# Topic: q\<newline>\<newline>'',
        UpdateItem ''processes'' ''p1''
          [(''status'', ''COMPLETED''), (''result'', ''\"## A Title\"'')]]
   \<and> stored (handler no_text_env demo_event empty_db) ''processes'' ''p1'' ''status''
     = Some ''COMPLETED''
   \<and> stored (handler no_text_env demo_event empty_db) ''processes'' ''p1'' ''result''
     = Some ''\"## A Title\"''"
proof -
  have w: "update_item_raises no_text_env ''processes'' ''p1'' [(''status'', ''PROCESSING'')] = None"
    "update_item_raises no_text_env ''processes'' ''p1''
        [(''status'', ''COMPLETED''), (''result'', json_dumps_str ''## A Title'')] = None"
    "getitem (environ no_text_env) ''PROCESS_TABLE'' = Inr ''processes''"
    by (simp_all add: no_text_env_sel getitem_def)
  have s: "ddgs_news no_text_env ''q'' 5
     = Inr [[(''title'', ''No link'')], [(''url'', ''http://a''), (''title'', ''A'')]]"
    and c: "article_writer_run no_text_env (''# Topic: '' @ ''q'' @ ''\<newline>\<newline>'') = Inr ''## A Title''"
    by (simp_all add: no_text_env_def base_env_def)
  from handler_no_sources [OF demo_event_items w(3) w(1) s collect_no_text c w(2), of empty_db]
  have e: "events_of (handler no_text_env demo_event empty_db)
     = [UpdateItem ''processes'' ''p1'' [(''status'', ''PROCESSING'')],
        News ''q'' 5, GetArticleData ''http://a'', WriterRun ''# Topic: q\<newline>\<newline>'',
        UpdateItem ''processes'' ''p1''
          [(''status'', ''COMPLETED''), (''result'', ''\"## A Title\"'')]]"
    and st: "stored (handler no_text_env demo_event empty_db) ''processes'' ''p1'' ''status''
     = Some ''COMPLETED''"
    and r: "stored (handler no_text_env demo_event empty_db) ''processes'' ''p1'' ''result''
     = Some ''\"## A Title\"''"
    by (simp_all add: json_dumps_str_def json_escape_def)
  show ?thesis
    by (intro conjI) (rule s collect_no_text e st r)+
qed

subsection \<open>Terminal writes\<close>

lemma terminal_is_update: "is_terminal_write ev \<Longrightarrow> is_update ev"
  by (cases ev) (simp_all add: is_terminal_write_def)

lemma on_exception_events:
  "\<exists>tail. events_of (on_exception env tname process_id e db evs) = evs @ tail
     \<and> (tail = [] \<or> (\<exists>t. tail = [t] \<and> is_terminal_write t))"
  by (auto simp: on_exception_def events_of_def Let_def is_terminal_write_def split: sum.splits)

lemma handler_events_shape:
  "events_of (handler env event db) = []
   \<or> (\<exists>p body tail. events_of (handler env event db) = p # body @ tail
        \<and> \<not> is_terminal_write p \<and> (\<forall>ev \<in> set body. \<not> is_update ev)
        \<and> (tail = [] \<or> (\<exists>t. tail = [t] \<and> is_terminal_write t)))"
proof (cases "getitem event ''processId''")
  case (Inl e)
  then show ?thesis by (simp add: handler_def events_of_def)
next
  case pid: (Inr process_id)
  show ?thesis
  proof (cases "getitem event ''question''")
    case (Inl e)
    with pid show ?thesis by (simp add: handler_def events_of_def)
  next
    case q: (Inr question)
    show ?thesis
    proof (cases "getitem (environ env) ''PROCESS_TABLE''")
      case (Inl e)
      with pid q show ?thesis by (simp add: handler_def events_of_def)
    next
      case tn: (Inr tname)
      show ?thesis
      proof (cases "update_item env tname process_id [(''status'', ''PROCESSING'')] db")
        case (Inl e)
        with pid q tn show ?thesis by (simp add: handler_def events_of_def)
      next
        case w1: (Inr db1)
        obtain res evs where run: "run_pipeline env question = (res, evs)"
          by (cases "run_pipeline env question")
        have body: "\<forall>ev \<in> set evs. \<not> is_update ev"
          using run_pipeline_events [OF run] by blast
        let ?p = "UpdateItem tname process_id [(''status'', ''PROCESSING'')]"
        have p: "\<not> is_terminal_write ?p"
          by (simp add: is_terminal_write_def)
        have "\<exists>tail. events_of (handler env event db) = ?p # evs @ tail
                \<and> (tail = [] \<or> (\<exists>t. tail = [t] \<and> is_terminal_write t))"
        proof (cases res)
          case (Inl e)
          with pid q tn w1 run on_exception_events [of env tname process_id e db1 "?p # evs"]
          show ?thesis by (simp add: handler_def)
        next
          case r: (Inr composed)
          let ?sets = "[(''status'', ''COMPLETED''), (''result'', json_dumps_str composed)]"
          show ?thesis
          proof (cases "update_item env tname process_id ?sets db1")
            case (Inl e)
            with r pid q tn w1 run on_exception_events [of env tname process_id e db1 "?p # evs"]
            show ?thesis by (simp add: handler_def Let_def)
          next
            case (Inr db2)
            with r pid q tn w1 run show ?thesis
              by (simp add: handler_def Let_def events_of_def is_terminal_write_def)
          qed
        qed
        with p body show ?thesis by blast
      qed
    qed
  qed
qed

lemma filter_front_tail:
  assumes front: "\<forall>x \<in> set front. \<not> P x"
    and tail: "tail = [] \<or> (\<exists>t. tail = [t] \<and> P t)"
  shows "length (filter P (front @ tail)) \<le> 1"
proof -
  have "filter P front = []"
    using front by (simp add: filter_empty_conv)
  moreover have "length (filter P tail) \<le> 1"
    using tail by (elim disjE exE conjE) simp_all
  ultimately show ?thesis by simp
qed

lemma last_front_tail:
  assumes front: "\<forall>x \<in> set front. \<not> P x"
    and tail: "tail = [] \<or> (\<exists>t. tail = [t] \<and> P t)"
    and split: "front @ tail = pre @ x # post"
    and x: "P x"
  shows "post = []"
proof (rule ccontr)
  assume "post \<noteq> []"
  then obtain post' z where post: "post = post' @ [z]"
    by (cases post rule: rev_cases) simp_all
  from tail have "x \<in> set front"
  proof
    assume "tail = []"
    with split have "front = pre @ x # post" by simp
    then show ?thesis by simp
  next
    assume "\<exists>t. tail = [t] \<and> P t"
    then obtain t where "tail = [t]" by blast
    with split post have "front @ [t] = (pre @ x # post') @ [z]" by simp
    then have "front = pre @ x # post'" by (simp only: append1_eq_conv)
    then show ?thesis by simp
  qed
  with front x show False by blast
qed

lemma member_front_tail:
  assumes front: "\<forall>x \<in> set front. \<not> P x"
    and tail: "tail = [] \<or> (\<exists>t. tail = [t] \<and> P t)"
    and x: "x \<in> set (front @ tail)" "P x" and y: "y \<in> set (front @ tail)" "P y"
  shows "x = y"
proof -
  from front x have "x \<in> set tail" by auto
  moreover from front y have "y \<in> set tail" by auto
  ultimately show ?thesis
    using tail by (elim disjE exE conjE) simp_all
qed

lemma handler_front_tail:
  "\<exists>front tail. events_of (handler env event db) = front @ tail
     \<and> (\<forall>ev \<in> set front. \<not> is_terminal_write ev)
     \<and> (tail = [] \<or> (\<exists>t. tail = [t] \<and> is_terminal_write t))"
proof -
  from handler_events_shape [of env event db] show ?thesis
  proof
    assume "events_of (handler env event db) = []"
    then have "events_of (handler env event db) = [] @ []
       \<and> (\<forall>ev \<in> set []. \<not> is_terminal_write ev)
       \<and> ([] = [] \<or> (\<exists>t. [] = [t] \<and> is_terminal_write t))"
      by simp
    then show ?thesis by blast
  next
    assume "\<exists>p body tail. events_of (handler env event db) = p # body @ tail
        \<and> \<not> is_terminal_write p \<and> (\<forall>ev \<in> set body. \<not> is_update ev)
        \<and> (tail = [] \<or> (\<exists>t. tail = [t] \<and> is_terminal_write t))"
    then obtain p body tail where e: "events_of (handler env event db) = p # body @ tail"
      and p: "\<not> is_terminal_write p" and b: "\<forall>ev \<in> set body. \<not> is_update ev"
      and t: "tail = [] \<or> (\<exists>t. tail = [t] \<and> is_terminal_write t)"
      by blast
    from b have "\<forall>ev \<in> set body. \<not> is_terminal_write ev"
      using terminal_is_update by blast
    with p have "\<forall>ev \<in> set (p # body). \<not> is_terminal_write ev" by simp
    moreover from e have "events_of (handler env event db) = (p # body) @ tail" by simp
    ultimately show ?thesis using t by blast
  qed
qed

text \<open>
  Claim C5. In the events of any invocation there is at most one write of a terminal
  status (\<open>COMPLETED\<close> or \<open>FAILED\<close>); no invocation writes both a \<open>COMPLETED\<close> and a \<open>FAILED\<close>
  status; and a write of a terminal status is the last event of the invocation, so no write
  follows it.
\<close>

theorem handler_one_terminal_write:
  "length (filter is_terminal_write (events_of (handler env event db))) \<le> 1
   \<and> \<not> (\<exists>x \<in> set (events_of (handler env event db)).
          \<exists>y \<in> set (events_of (handler env event db)).
            written_status x = Some ''COMPLETED'' \<and> written_status y = Some ''FAILED'')
   \<and> (\<forall>pre ev post. events_of (handler env event db) = pre @ ev # post
          \<longrightarrow> is_terminal_write ev \<longrightarrow> post = [])"
proof -
  obtain front tail where evs: "events_of (handler env event db) = front @ tail"
    and front: "\<forall>ev \<in> set front. \<not> is_terminal_write ev"
    and tail: "tail = [] \<or> (\<exists>t. tail = [t] \<and> is_terminal_write t)"
    using handler_front_tail [of env event db] by (elim exE conjE)
  have one: "length (filter is_terminal_write (front @ tail)) \<le> 1"
    by (rule filter_front_tail [OF front tail])
  have last: "\<forall>pre ev post. front @ tail = pre @ ev # post
          \<longrightarrow> is_terminal_write ev \<longrightarrow> post = []"
    by (intro allI impI) (rule last_front_tail [OF front tail])
  have both: "\<not> (\<exists>x \<in> set (front @ tail). \<exists>y \<in> set (front @ tail).
            written_status x = Some ''COMPLETED'' \<and> written_status y = Some ''FAILED'')"
  proof
    assume "\<exists>x \<in> set (front @ tail). \<exists>y \<in> set (front @ tail).
            written_status x = Some ''COMPLETED'' \<and> written_status y = Some ''FAILED''"
    then obtain x y where x: "x \<in> set (front @ tail)" and y: "y \<in> set (front @ tail)"
      and sx: "written_status x = Some ''COMPLETED''" and sy: "written_status y = Some ''FAILED''"
      by (elim bexE conjE)
    have tx: "is_terminal_write x" using sx by (simp add: is_terminal_write_def)
    have ty: "is_terminal_write y" using sy by (simp add: is_terminal_write_def)
    have "x = y" by (rule member_front_tail [OF front tail x tx y ty])
    with sx sy show False by simp
  qed
  show ?thesis
    unfolding evs using one both last by (intro conjI)
qed

theorem handler_one_terminal_write_witness:
  "events_of (handler base_env demo_event empty_db)
     = [UpdateItem ''processes'' ''p1'' [(''status'', ''PROCESSING'')],
        News ''q'' 5, WriterRun ''# Topic: q\<newline>\<newline>'',
        UpdateItem ''processes'' ''p1''
          [(''status'', ''COMPLETED''), (''result'', ''\"## A Title\"'')]]
   \<and> length (filter is_terminal_write (events_of (handler base_env demo_event empty_db))) = 1
   \<and> filter is_terminal_write (events_of (handler (failing_writer_env ''x'') demo_event empty_db))
     = [UpdateItem ''processes'' ''p1'' [(''status'', ''FAILED''), (''error'', ''x'')]]"
proof -
  have e: "events_of (handler base_env demo_event empty_db)
     = [UpdateItem ''processes'' ''p1'' [(''status'', ''PROCESSING'')],
        News ''q'' 5, WriterRun ''# Topic: q\<newline>\<newline>'',
        UpdateItem ''processes'' ''p1''
          [(''status'', ''COMPLETED''), (''result'', ''\"## A Title\"'')]]"
    by (simp add: run_base handler_def update_item_def Let_def events_of_def
        json_dumps_str_def json_escape_def base_env_sel demo_event_def getitem_def)
  have f: "events_of (handler (failing_writer_env ''x'') demo_event empty_db)
     = [UpdateItem ''processes'' ''p1'' [(''status'', ''PROCESSING'')],
        News ''q'' 5, WriterRun ''# Topic: q\<newline>\<newline>'',
        UpdateItem ''processes'' ''p1'' [(''status'', ''FAILED''), (''error'', ''x'')]]"
    by (simp add: run_failing_writer handler_def on_exception_def update_item_def Let_def
        events_of_def failing_writer_env_sel demo_event_def getitem_def)
  have t: "filter is_terminal_write (events_of (handler base_env demo_event empty_db))
     = [UpdateItem ''processes'' ''p1''
          [(''status'', ''COMPLETED''), (''result'', ''\"## A Title\"'')]]"
    unfolding e by (simp add: is_terminal_write_def)
  have t': "filter is_terminal_write (events_of (handler (failing_writer_env ''x'') demo_event empty_db))
     = [UpdateItem ''processes'' ''p1'' [(''status'', ''FAILED''), (''error'', ''x'')]]"
    unfolding f by (simp add: is_terminal_write_def)
  from handler_one_terminal_write [of base_env demo_event empty_db] t
  have "length (filter is_terminal_write (events_of (handler base_env demo_event empty_db))) = 1"
    by simp
  with e t' show ?thesis by (intro conjI)
qed

section \<open>The collector\<close>

lemma keep_usable:
  assumes "map_of r ''url'' = Some url" and "get_article_data env url = Inr article_data"
  shows "keep_result r article_data acc
     = acc @ (case usable_source env r of None \<Rightarrow> [] | Some r' \<Rightarrow> [r'])"
  using assms by (simp add: keep_result_def usable_source_def split: option.splits)

lemma collect_selects:
  assumes "\<forall>r \<in> set results. \<forall>url e. map_of r ''url'' = Some url \<longrightarrow> get_article_data env url \<noteq> Inl e"
  shows "fst (collect_news_results env results acc)
     = Inr (acc @ List.map_filter (usable_source env) results)"
  using assms
proof (induction results arbitrary: acc)
  case Nil
  show ?case by simp
next
  case (Cons r results)
  then have IH: "\<And>acc. fst (collect_news_results env results acc)
     = Inr (acc @ List.map_filter (usable_source env) results)"
    by simp
  show ?case
  proof (cases "map_of r ''url''")
    case None
    then have "usable_source env r = None" by (simp add: usable_source_def)
    with None IH show ?thesis by simp
  next
    case (Some url)
    with Cons.prems obtain article_data where ad: "get_article_data env url = Inr article_data"
      by (cases "get_article_data env url") simp_all
    have step: "fst (collect_news_results env (r # results) acc)
       = fst (collect_news_results env results (keep_result r article_data acc))"
      using Some ad by (simp add: case_prod_beta)
    show ?thesis
      unfolding step IH keep_usable [OF Some ad]
      by (simp split: option.splits)
  qed
qed

lemma usable_source_delete:
  "usable_source env r = Some r' \<Longrightarrow> AList.delete ''text'' r' = AList.delete ''text'' r"
  by (auto simp: usable_source_def delete_update_same split: option.splits sum.splits if_splits)

lemma subseq_map_filter:
  assumes "\<And>x y. f x = Some y \<Longrightarrow> g y = g x"
  shows "subseq (map g (List.map_filter f xs)) (map g xs)"
proof (induction xs)
  case Nil
  show ?case by simp
next
  case (Cons x xs)
  show ?case
  proof (cases "f x")
    case None
    with Cons show ?thesis by (simp add: list_emb_Cons)
  next
    case (Some y)
    with Cons assms [OF Some] show ?thesis by simp
  qed
qed

lemma length_map_filter_le: "length (List.map_filter f xs) \<le> length xs"
  by (induction xs) (simp_all split: option.splits)

text \<open>
  Claim C4, amended. For every sequence of search results on which the extractor does not
  raise, the collected sequence consists of exactly those results that carry a \<open>url\<close> and for
  which the extractor returned a non-empty article record with a \<open>text\<close> field (whatever the
  text, the empty text included), each with its \<open>text\<close> field set to the extracted text;
  results without a \<open>url\<close>, or for which the extractor returned \<open>None\<close>, an empty record or a
  record without \<open>text\<close>, are dropped. The order is the order of the input (up to the \<open>text\<close>
  field the collected results are a subsequence of the input), the length is at most the
  number of search results, and so at most 5 when the search returns at most the 5 results
  asked for.
\<close>

theorem collect_news_results_selects:
  assumes "\<forall>r \<in> set results. \<forall>url e. map_of r ''url'' = Some url \<longrightarrow> get_article_data env url \<noteq> Inl e"
  shows "fst (collect_news_results env results [])
       = Inr (List.map_filter (usable_source env) results)
     \<and> subseq (map (AList.delete ''text'') (List.map_filter (usable_source env) results))
         (map (AList.delete ''text'') results)
     \<and> length (List.map_filter (usable_source env) results) \<le> length results
     \<and> (length results \<le> 5 \<longrightarrow> length (List.map_filter (usable_source env) results) \<le> 5)"
proof -
  have a: "fst (collect_news_results env results [])
       = Inr (List.map_filter (usable_source env) results)"
    using collect_selects [OF assms, of "[]"] by simp
  have b: "subseq (map (AList.delete ''text'') (List.map_filter (usable_source env) results))
         (map (AList.delete ''text'') results)"
    by (rule subseq_map_filter) (rule usable_source_delete)
  have c: "length (List.map_filter (usable_source env) results) \<le> length results"
    by (rule length_map_filter_le)
  then have d: "length results \<le> 5 \<longrightarrow> length (List.map_filter (usable_source env) results) \<le> 5"
    by simp
  from a b c d show ?thesis by (intro conjI)
qed

lemma five_results_usable:
  "List.map_filter (usable_source extract_env) five_results
     = [[(''title'', ''A''), (''url'', ''http://a''), (''text'', ''Full text of a'')],
        [(''title'', ''E''), (''url'', ''http://e''), (''text'', ''Full text of e'')]]"
  by (simp add: five_results_def usable_source_def extract_env_def base_env_def)

lemma five_results_no_raise:
  "\<forall>r \<in> set five_results. \<forall>url e. map_of r ''url'' = Some url \<longrightarrow> get_article_data extract_env url \<noteq> Inl e"
  by (simp add: extract_env_def base_env_def)

theorem collect_news_results_selects_witness:
  "fst (collect_news_results extract_env five_results [])
     = Inr [[(''title'', ''A''), (''url'', ''http://a''), (''text'', ''Full text of a'')],
            [(''title'', ''E''), (''url'', ''http://e''), (''text'', ''Full text of e'')]]
   \<and> length five_results = 5"
proof -
  from collect_news_results_selects [OF five_results_no_raise]
  have "fst (collect_news_results extract_env five_results [])
     = Inr (List.map_filter (usable_source extract_env) five_results)"
    by (elim conjE)
  then have a: "fst (collect_news_results extract_env five_results [])
     = Inr [[(''title'', ''A''), (''url'', ''http://a''), (''text'', ''Full text of a'')],
            [(''title'', ''E''), (''url'', ''http://e''), (''text'', ''Full text of e'')]]"
    by (simp only: five_results_usable)
  have b: "length five_results = 5" by (simp add: five_results_def)
  from a b show ?thesis by (intro conjI)
qed

text \<open>
  Claim C4, as stated: a result is collected only if the extraction returned non-empty text.
  The test of line 47 is that the article record is non-empty and has the key \<open>text\<close>: a
  result whose extraction returned the empty text is collected.
\<close>

theorem collect_empty_text_counterexample:
  "get_article_data empty_text_env ''http://a'' = Inr (Some [(''title'', ''A''), (''text'', [])])
   \<and> collect_news_results empty_text_env [[(''title'', ''A''), (''url'', ''http://a'')]] []
     = (Inr [[(''title'', ''A''), (''url'', ''http://a''), (''text'', [])]],
        [GetArticleData ''http://a''])"
  by (simp add: empty_text_env_def base_env_def keep_result_def)

section \<open>The summarizing loop\<close>

lemma split_from_words:
  "split_from [] (words n @ rest) = replicate n ''w'' @ split_from [] rest"
  by (induction n) (simp_all add: words_def isspace_def)

lemma str_split_words: "str_split (words n) = replicate n ''w''"
  using split_from_words [of n "[]"] by (simp add: str_split_def)

text \<open>
  Claim C7. For a record with all its fields whose text the summarizer answers with
  \<open>summary\<close>, one turn of the loop appends to the summary so far, whatever it is, the
  record's header and introduction, the heading \<open>#### Summary\<close>, then the summary itself when
  it has at most 5000 words and \<open>truncate_text summary 5000\<close> when it has more, and the
  separator. In the second case the appended text has exactly 5000 words: the first 5000
  words of the summary joined by single spaces.
\<close>

theorem summarize_article_appends:
  assumes title: "getitem news_result ''title'' = Inr title"
    and date: "getitem news_result ''date'' = Inr date"
    and url: "getitem news_result ''url'' = Inr url"
    and intro: "getitem news_result ''body'' = Inr snippet"
    and full: "getitem news_result ''text'' = Inr full_text"
    and summ: "article_summarizer_run env full_text = Inr summary"
  shows "summarize_article env news_result news_summary =
       (Inr (news_summary @ ''### '' @ title @ ''\<newline>\<newline>- Date: '' @ date
               @ ''\<newline>\<newline>- URL: '' @ url @ ''\<newline>\<newline>#### Introduction\<newline>\<newline>'' @ snippet
               @ ''\<newline>\<newline>#### Summary\<newline>\<newline>''
               @ (if 5000 < int (length (str_split summary))
                  then truncate_text summary 5000 else summary)
               @ ''\<newline>\<newline>---\<newline>\<newline>''),
        [SummarizerRun full_text])
     \<and> (5000 < int (length (str_split summary)) \<longrightarrow>
          length (str_split (truncate_text summary 5000)) = 5000
          \<and> truncate_text summary 5000 = str_join '' '' (take 5000 (str_split summary)))"
proof -
  have a: "summarize_article env news_result news_summary =
       (Inr (news_summary @ ''### '' @ title @ ''\<newline>\<newline>- Date: '' @ date
               @ ''\<newline>\<newline>- URL: '' @ url @ ''\<newline>\<newline>#### Introduction\<newline>\<newline>'' @ snippet
               @ ''\<newline>\<newline>#### Summary\<newline>\<newline>''
               @ (if 5000 < int (length (str_split summary))
                  then truncate_text summary 5000 else summary)
               @ ''\<newline>\<newline>---\<newline>\<newline>''),
        [SummarizerRun full_text])"
    using assms by (simp add: summarize_article_def Let_def news_summary_length_def)
  have b: "5000 < int (length (str_split summary)) \<longrightarrow>
          length (str_split (truncate_text summary 5000)) = 5000
          \<and> truncate_text summary 5000 = str_join '' '' (take 5000 (str_split summary))"
    by (simp add: split_truncate) (simp add: truncate_text_def slice_to_def)
  from a b show ?thesis by (intro conjI)
qed

lemma long_record_items:
  "getitem long_record ''title'' = Inr ''T''"
  "getitem long_record ''date'' = Inr ''D''"
  "getitem long_record ''url'' = Inr ''http://l''"
  "getitem long_record ''body'' = Inr ''B''"
  "getitem long_record ''text'' = Inr ''long''"
  by (simp_all add: long_record_def getitem_def)

lemma summary_env_long: "article_summarizer_run summary_env ''long'' = Inr (words 5001)"
  by (simp add: summary_env_def base_env_def)

theorem summarize_article_appends_witness:
  "int (length (str_split (words 5001))) = 5001
   \<and> summarize_article summary_env long_record ''earlier sections'' =
       (Inr (''earlier sections'' @ ''### T\<newline>\<newline>- Date: D\<newline>\<newline>- URL: http://l\<newline>\<newline>#### Introduction\<newline>\<newline>B\<newline>\<newline>#### Summary\<newline>\<newline>''
              @ truncate_text (words 5001) 5000 @ ''\<newline>\<newline>---\<newline>\<newline>''),
        [SummarizerRun ''long''])
   \<and> length (str_split (truncate_text (words 5001) 5000)) = 5000
   \<and> truncate_text (words 5001) 5000 = str_join '' '' (replicate 5000 ''w'')"
proof -
  have n: "int (length (str_split (words 5001))) = 5001"
    by (simp add: str_split_words)
  then have over: "5000 < int (length (str_split (words 5001)))"
    by simp
  note t = summarize_article_appends [OF long_record_items summary_env_long,
      of "''earlier sections''"]
  from conjunct1 [OF t] over
  have a: "summarize_article summary_env long_record ''earlier sections'' =
       (Inr (''earlier sections'' @ ''### T\<newline>\<newline>- Date: D\<newline>\<newline>- URL: http://l\<newline>\<newline>#### Introduction\<newline>\<newline>B\<newline>\<newline>#### Summary\<newline>\<newline>''
              @ truncate_text (words 5001) 5000 @ ''\<newline>\<newline>---\<newline>\<newline>''),
        [SummarizerRun ''long''])"
    by simp
  note bc = conjunct2 [OF t, THEN mp, OF over]
  have b: "length (str_split (truncate_text (words 5001) 5000)) = 5000"
    by (rule conjunct1 [OF bc])
  from conjunct2 [OF bc]
  have c: "truncate_text (words 5001) 5000 = str_join '' '' (replicate 5000 ''w'')"
    by (simp add: str_split_words)
  from n a b c show ?thesis by (intro conjI)
qed

lemma summarize_article_section:
  "summarize_article env r ns = (Inr out, evs) \<Longrightarrow>
     \<exists>sec t. section_of env r = Inr sec \<and> out = ns @ sec
       \<and> evs = [SummarizerRun t] \<and> text_of r = Some t"
  by (auto simp: summarize_article_def section_of_def text_of_def getitem_def Let_def
      split: sum.splits option.splits)

lemma summarize_articles_prefix:
  "summarize_articles env rs ns = (Inr out, evs) \<Longrightarrow>
   \<exists>k secs. k \<le> length rs \<and> length secs = k
     \<and> map (section_of env) (take k rs) = map Inr secs
     \<and> out = ns @ concat secs
     \<and> length evs = k \<and> map summarized_text evs = map text_of (take k rs)
     \<and> (k = length rs \<or> news_summary_length < int (length (str_split (ns @ concat secs))))
     \<and> (\<forall>j. 0 < j \<and> j < k \<longrightarrow>
           int (length (str_split (ns @ concat (take j secs)))) \<le> news_summary_length)"
proof (induction rs arbitrary: ns out evs)
  case Nil
  then have "out = ns" "evs = []" by simp_all
  then have "0 \<le> length ([] :: pydict list) \<and> length ([] :: string list) = 0
     \<and> map (section_of env) (take 0 []) = map Inr ([] :: string list)
     \<and> out = ns @ concat ([] :: string list)
     \<and> length evs = 0 \<and> map summarized_text evs = map text_of (take 0 [])
     \<and> (0 = length ([] :: pydict list)
          \<or> news_summary_length < int (length (str_split (ns @ concat ([] :: string list)))))
     \<and> (\<forall>j. 0 < j \<and> j < 0 \<longrightarrow>
           int (length (str_split (ns @ concat (take j ([] :: string list))))) \<le> news_summary_length)"
    by simp
  then show ?case by (intro exI [of _ 0] exI [of _ "[]"])
next
  case (Cons r rs)
  obtain res1 evs1 where one: "summarize_article env r ns = (res1, evs1)"
    by (cases "summarize_article env r ns")
  from Cons.prems one obtain ns' where res1: "res1 = Inr ns'"
    by (cases res1) simp_all
  from summarize_article_section [OF one [unfolded res1]]
  obtain sec t where sec: "section_of env r = Inr sec" and ns': "ns' = ns @ sec"
    and evs1: "evs1 = [SummarizerRun t]" and t: "text_of r = Some t"
    by (elim exE conjE)
  show ?case
  proof (cases "news_summary_length < int (length (str_split ns'))")
    case True
    with Cons.prems one res1 have "out = ns'" "evs = evs1" by simp_all
    with sec ns' evs1 t True
    have "Suc 0 \<le> length (r # rs) \<and> length [sec] = Suc 0
       \<and> map (section_of env) (take (Suc 0) (r # rs)) = map Inr [sec]
       \<and> out = ns @ concat [sec]
       \<and> length evs = Suc 0 \<and> map summarized_text evs = map text_of (take (Suc 0) (r # rs))
       \<and> (Suc 0 = length (r # rs)
            \<or> news_summary_length < int (length (str_split (ns @ concat [sec]))))
       \<and> (\<forall>j. 0 < j \<and> j < Suc 0 \<longrightarrow>
             int (length (str_split (ns @ concat (take j [sec])))) \<le> news_summary_length)"
      by simp
    then show ?thesis by (intro exI [of _ "Suc 0"] exI [of _ "[sec]"])
  next
    case False
    obtain res2 evs2 where rest: "summarize_articles env rs ns' = (res2, evs2)"
      by (cases "summarize_articles env rs ns'")
    with Cons.prems one res1 False have res2: "res2 = Inr out" and evs: "evs = evs1 @ evs2"
      by simp_all
    from Cons.IH [OF rest [unfolded res2]]
    obtain k secs where k: "k \<le> length rs" and len: "length secs = k"
      and secs: "map (section_of env) (take k rs) = map Inr secs"
      and out: "out = ns' @ concat secs"
      and levs: "length evs2 = k"
      and texts: "map summarized_text evs2 = map text_of (take k rs)"
      and stop: "k = length rs
          \<or> news_summary_length < int (length (str_split (ns' @ concat secs)))"
      and below: "\<forall>j. 0 < j \<and> j < k \<longrightarrow>
           int (length (str_split (ns' @ concat (take j secs)))) \<le> news_summary_length"
      by (elim exE conjE)
    have min: "\<forall>j. 0 < j \<and> j < Suc k \<longrightarrow>
        int (length (str_split (ns @ concat (take j (sec # secs))))) \<le> news_summary_length"
    proof (intro allI impI)
      fix j assume j: "0 < j \<and> j < Suc k"
      then obtain i where i: "j = Suc i" by (cases j) simp_all
      show "int (length (str_split (ns @ concat (take j (sec # secs))))) \<le> news_summary_length"
      proof (cases "i = 0")
        case True
        with i False ns' show ?thesis by simp
      next
        case nz: False
        with i j have "0 < i \<and> i < k" by simp
        with below have "int (length (str_split (ns' @ concat (take i secs)))) \<le> news_summary_length"
          by simp
        with i ns' show ?thesis by simp
      qed
    qed
    from k len secs out levs texts stop sec ns' evs1 t evs
    have "Suc k \<le> length (r # rs) \<and> length (sec # secs) = Suc k
       \<and> map (section_of env) (take (Suc k) (r # rs)) = map Inr (sec # secs)
       \<and> out = ns @ concat (sec # secs)
       \<and> length evs = Suc k
       \<and> map summarized_text evs = map text_of (take (Suc k) (r # rs))
       \<and> (Suc k = length (r # rs)
            \<or> news_summary_length < int (length (str_split (ns @ concat (sec # secs)))))"
      by simp
    with min show ?thesis by (intro exI [of _ "Suc k"] exI [of _ "sec # secs"]) simp
  qed
qed

lemma summarize_article_from_section:
  "section_of env r = Inr sec \<Longrightarrow>
     \<exists>evs. summarize_article env r ns = (Inr (ns @ sec), evs)"
  by (auto simp: summarize_article_def section_of_def Let_def split: sum.splits)

text \<open>The loop returns a summary whenever every record yields its section.\<close>

lemma summarize_articles_returns:
  "\<forall>r \<in> set rs. \<exists>sec. section_of env r = Inr sec \<Longrightarrow>
     \<exists>out evs. summarize_articles env rs ns = (Inr out, evs)"
proof (induction rs arbitrary: ns)
  case Nil
  show ?case by simp
next
  case (Cons r rs)
  then obtain sec where "section_of env r = Inr sec" by auto
  from summarize_article_from_section [OF this, of ns]
  obtain evs1 where one: "summarize_article env r ns = (Inr (ns @ sec), evs1)" by (elim exE)
  from Cons obtain out evs2 where rest: "summarize_articles env rs (ns @ sec) = (Inr out, evs2)"
    by fastforce
  show ?case
    using one rest by simp
qed

text \<open>
  Claim C3. When the loop over the collected records returns the summary \<open>news_summary\<close>,
  there is a number \<open>k\<close> of records such that: the first \<open>k\<close> records each contributed their
  section and \<open>news_summary\<close> is these \<open>k\<close> sections in order, nothing else; the summarizer was
  run \<open>k\<close> times, on the texts of the first \<open>k\<close> records in order; either all records are
  consumed or the accumulated text, counted after the section of record \<open>k\<close> was appended,
  has more than 5000 words; and \<open>k\<close> is the smallest such number, since after fewer sections
  the accumulated text has at most 5000 words. (The text counted is \<open>news_summary\<close>, the
  accumulated sections.) The example after the theorem has 3 records of which the second
  crosses 5000 words: the summary holds the sections of records 1 and 2 only.
\<close>

theorem summarize_articles_smallest_prefix:
  assumes "summarize_articles env news_results [] = (Inr news_summary, evs)"
  shows "\<exists>k secs. k \<le> length news_results \<and> length secs = k
     \<and> map (section_of env) (take k news_results) = map Inr secs
     \<and> news_summary = concat secs
     \<and> length evs = k \<and> map summarized_text evs = map text_of (take k news_results)
     \<and> (k = length news_results \<or> 5000 < int (length (str_split (concat secs))))
     \<and> (\<forall>j < k. int (length (str_split (concat (take j secs)))) \<le> 5000)"
proof -
  from summarize_articles_prefix [OF assms]
  obtain k secs where k: "k \<le> length news_results" and len: "length secs = k"
    and secs: "map (section_of env) (take k news_results) = map Inr secs"
    and out: "news_summary = [] @ concat secs"
    and levs: "length evs = k"
    and texts: "map summarized_text evs = map text_of (take k news_results)"
    and stop: "k = length news_results
        \<or> news_summary_length < int (length (str_split ([] @ concat secs)))"
    and below: "\<forall>j. 0 < j \<and> j < k \<longrightarrow>
         int (length (str_split ([] @ concat (take j secs)))) \<le> news_summary_length"
    by (elim exE conjE)
  have min: "\<forall>j < k. int (length (str_split (concat (take j secs)))) \<le> 5000"
  proof (intro allI impI)
    fix j assume j: "j < k"
    show "int (length (str_split (concat (take j secs)))) \<le> 5000"
    proof (cases "j = 0")
      case True
      then show ?thesis by (simp add: str_split_def)
    next
      case False
      with j below show ?thesis by (simp add: news_summary_length_def)
    qed
  qed
  from k len secs out levs texts stop
  have "k \<le> length news_results \<and> length secs = k
     \<and> map (section_of env) (take k news_results) = map Inr secs
     \<and> news_summary = concat secs
     \<and> length evs = k \<and> map summarized_text evs = map text_of (take k news_results)
     \<and> (k = length news_results \<or> 5000 < int (length (str_split (concat secs))))"
    by (simp add: news_summary_length_def)
  with min show ?thesis by (intro exI [of _ k] exI [of _ secs]) simp
qed

lemma split_from_words_end: "split_from [] (words n) = replicate n ''w''"
  using split_from_words [of n "[]"] by simp

lemma summary_env_run:
  "article_summarizer_run summary_env
     = (\<lambda>full_text. if full_text = ''long'' then Inr (words 5001) else Inr (words 3000))"
  by (simp add: summary_env_def base_env_def)

lemma three_records_run:
  "summarize_articles summary_env three_records [] =
     (Inr ((''### T1\<newline>\<newline>- Date: D1\<newline>\<newline>- URL: http://1\<newline>\<newline>#### Introduction\<newline>\<newline>B1\<newline>\<newline>#### Summary\<newline>\<newline>''
            @ words 3000 @ ''\<newline>\<newline>---\<newline>\<newline>'')
         @ (''### T2\<newline>\<newline>- Date: D2\<newline>\<newline>- URL: http://2\<newline>\<newline>#### Introduction\<newline>\<newline>B2\<newline>\<newline>#### Summary\<newline>\<newline>''
            @ words 3000 @ ''\<newline>\<newline>---\<newline>\<newline>'')),
      [SummarizerRun ''t1'', SummarizerRun ''t2''])"
  by (simp add: three_records_def summarize_article_def getitem_def Let_def summary_env_run
      news_summary_length_def str_split_def split_from_words split_from_words_end isspace_def)

theorem summarize_articles_smallest_prefix_witness:
  "summarize_articles summary_env three_records [] =
     (Inr ((''### T1\<newline>\<newline>- Date: D1\<newline>\<newline>- URL: http://1\<newline>\<newline>#### Introduction\<newline>\<newline>B1\<newline>\<newline>#### Summary\<newline>\<newline>''
            @ words 3000 @ ''\<newline>\<newline>---\<newline>\<newline>'')
         @ (''### T2\<newline>\<newline>- Date: D2\<newline>\<newline>- URL: http://2\<newline>\<newline>#### Introduction\<newline>\<newline>B2\<newline>\<newline>#### Summary\<newline>\<newline>''
            @ words 3000 @ ''\<newline>\<newline>---\<newline>\<newline>'')),
      [SummarizerRun ''t1'', SummarizerRun ''t2''])
   \<and> length three_records = 3
   \<and> (\<exists>secs. length secs = 2
        \<and> map (section_of summary_env) (take 2 three_records) = map Inr secs
        \<and> 5000 < int (length (str_split (concat secs)))
        \<and> int (length (str_split (concat (take 1 secs)))) \<le> 5000)"
proof -
  from summarize_articles_smallest_prefix [OF three_records_run]
  obtain k secs where len: "length secs = k"
    and secs: "map (section_of summary_env) (take k three_records) = map Inr secs"
    and levs: "length [SummarizerRun ''t1'', SummarizerRun ''t2''] = k"
    and stop: "k = length three_records \<or> 5000 < int (length (str_split (concat secs)))"
    and below: "\<forall>j < k. int (length (str_split (concat (take j secs)))) \<le> 5000"
    by (elim exE conjE)
  have three: "length three_records = 3"
    by (simp add: three_records_def)
  from levs have k: "k = 2" by simp
  from stop k three have over: "5000 < int (length (str_split (concat secs)))"
    by simp
  from below k have "int (length (str_split (concat (take 1 secs)))) \<le> 5000"
    by simp
  with len secs over k
  have "length secs = 2
        \<and> map (section_of summary_env) (take 2 three_records) = map Inr secs
        \<and> 5000 < int (length (str_split (concat secs)))
        \<and> int (length (str_split (concat (take 1 secs)))) \<le> 5000"
    by simp
  then have ex: "\<exists>secs. length secs = 2
        \<and> map (section_of summary_env) (take 2 three_records) = map Inr secs
        \<and> 5000 < int (length (str_split (concat secs)))
        \<and> int (length (str_split (concat (take 1 secs)))) \<le> 5000"
    by (rule exI)
  from three_records_run three ex show ?thesis by (intro conjI)
qed

end
